theory Spec2Isabelle
  imports Main "HOL-Library.Word" "HOL-Library.Monad_Syntax"
begin

unbundle bit_operations_syntax

section \<open>Bytes, buffers and the length field\<close>

type_synonym byte = "8 word"

text \<open>
  Both \<^verbatim>\<open>forward.c\<close> and \<^verbatim>\<open>network.c\<close> declare
  \<^verbatim>\<open>union b_u16 { uint16_t i; char b[2]; }\<close>.
  Which of the two bytes holds the low half of \<open>i\<close> is the host's byte order, so the
  model takes it as a parameter.
\<close>

datatype endian = Little_endian | Big_endian

text \<open>The bytes \<open>b[0]\<close>, \<open>b[1]\<close> of a union whose member \<open>i\<close> was stored.\<close>

definition b_u16_b :: "endian \<Rightarrow> 16 word \<Rightarrow> byte \<times> byte" where
  "b_u16_b e i =
     (case e of
        Little_endian \<Rightarrow> (ucast i, ucast (drop_bit 8 i))
      | Big_endian \<Rightarrow> (ucast (drop_bit 8 i), ucast i))"

text \<open>The member \<open>i\<close> of a union whose bytes \<open>b[0]\<close>, \<open>b[1]\<close> were stored.\<close>

definition b_u16_i :: "endian \<Rightarrow> byte \<times> byte \<Rightarrow> 16 word" where
  "b_u16_i e b =
     (case e of
        Little_endian \<Rightarrow> ucast (fst b) OR push_bit 8 (ucast (snd b))
      | Big_endian \<Rightarrow> ucast (snd b) OR push_bit 8 (ucast (fst b)))"


text \<open>
  A C array is a list of fixed length. \<open>slice buf off n\<close> is the part of the range
  \<open>buf[off .. off + n)\<close> that lies in the array, and \<open>blit buf off src\<close> copies \<open>src\<close> to
  \<open>buf + off\<close>. The state has no memory past the end of an array: a copy that runs past
  the end keeps the bytes that fit, and the others are gone.
\<close>

definition slice :: "byte list \<Rightarrow> nat \<Rightarrow> nat \<Rightarrow> byte list" where
  "slice buf off n = take n (drop off buf)"

definition blit :: "byte list \<Rightarrow> nat \<Rightarrow> byte list \<Rightarrow> byte list" where
  "blit buf off src = take (length buf) (take off buf @ src @ drop (off + length src) buf)"

text \<open>
  The \<open>n\<close> bytes that a call given \<open>buf + off\<close> and the length \<open>n\<close> takes: those of
  the array, then, where the range runs past its end, whatever the memory holds there;
  \<open>past i\<close> is the byte \<open>i\<close> places past the end. The call always takes \<open>n\<close> bytes.
\<close>

definition handed :: "byte list \<Rightarrow> (nat \<Rightarrow> byte) \<Rightarrow> nat \<Rightarrow> nat \<Rightarrow> byte list" where
  "handed buf past off n =
     slice buf off n
     @ map past [off + length (slice buf off n) - length buf ..< off + n - length buf]"

section \<open>The datagram pump (\<^verbatim>\<open>pump\<close> in \<^verbatim>\<open>network.c\<close>)\<close>

text \<open>
  A system call either fails, returning \<open>-1\<close> with \<open>errno\<close> set, or succeeds with a
  value. \<open>count\<close>, the offsets and the totals are C \<open>int\<close>s far below \<open>2^31\<close>; they
  are modelled as \<open>int\<close>.
\<close>

datatype 'a sysres = Failed int | Got 'a

definition EAGAIN :: int where
  "EAGAIN = 11"

definition hsz :: int where
  "hsz = 2"

text \<open>
  What the kernel answers during one iteration of the \<^verbatim>\<open>while (1)\<close> loop. An
  iteration makes at most one call of each kind.
  \<^item> \<open>select_r\<close>: the error of \<^verbatim>\<open>select\<close>, or \<^verbatim>\<open>FD_ISSET(tun_fd)\<close> and
    \<^verbatim>\<open>FD_ISSET(read_fd)\<close>;
  \<^item> \<open>read_r\<close>: the frame the TAP has ready;
  \<^item> \<open>sendto_r\<close>, \<open>write_r\<close>: how many bytes the kernel is willing to take;
  \<^item> \<open>recvfrom_r\<close>: the datagram that arrived.
  \<^item> \<open>past_rbuf\<close>, \<open>past_wbuf\<close>: the bytes that lie in memory past the end of each
    buffer when a call reads there. They are not the program's to choose, and nothing
    relates them to what an earlier overrunning copy stored.
  A call never transfers more than it was asked for: a frame or datagram is cut to the
  requested size and an accepted count is capped by it.
\<close>

record replies =
  select_r :: "(bool \<times> bool) sysres"
  read_r :: "byte list sysres"
  sendto_r :: "nat sysres"
  recvfrom_r :: "byte list sysres"
  write_r :: "nat sysres"
  past_rbuf :: "nat \<Rightarrow> byte"
  past_wbuf :: "nat \<Rightarrow> byte"

text \<open>The calls an iteration made, with the bytes that left or entered the process.\<close>

datatype io =
    Select
  | Read_tap int "byte list"
  | Sendto int int "byte list"
  | Recvfrom int "byte list"
  | Write_tap int int "byte list"

record pump_state =
  rbuf :: "byte list"
  wbuf :: "byte list"
  roff :: int
  woff :: int
  rtotal :: int
  wtotal :: int

text \<open>
  How a block of the loop body ends: it falls through to the next statement, executes
  \<^verbatim>\<open>continue\<close>, or returns \<open>errno\<close>.
\<close>

datatype flow = Fall pump_state | Continue pump_state | Return int

definition on_errno :: "int \<Rightarrow> pump_state \<Rightarrow> flow" where
  "on_errno errno st = (if errno = EAGAIN then Continue st else Return errno)"

text \<open>Lines 500--513: \<^verbatim>\<open>sendto\<close> from \<open>rbuf + roff\<close>, advance, reset when drained.\<close>

definition send_frame :: "replies \<Rightarrow> pump_state \<Rightarrow> flow \<times> io list" where
  "send_frame env st =
     (let len = rtotal st - roff st in
      case sendto_r env of
        Failed errno \<Rightarrow> (on_errno errno st, [Sendto (roff st) len []])
      | Got n \<Rightarrow>
          (let count = min (int n) len;
               roff' = roff st + count;
               st' = (if roff' \<ge> rtotal st then st\<lparr>roff := 0, rtotal := 0\<rparr>
                      else st\<lparr>roff := roff'\<rparr>)
           in (Fall st',
               [Sendto (roff st) len
                  (handed (rbuf st) (past_rbuf env) (nat (roff st)) (nat count))])))"

text \<open>
  Lines 480--514. \<open>mtu\<close> is the parameter after \<^verbatim>\<open>mtu += hsz\<close>, which is also the
  size of both buffers. \<^verbatim>\<open>view->i = count\<close> converts the \<open>int\<close> to \<open>uint16_t\<close>.
\<close>

definition tap_to_sock :: "endian \<Rightarrow> int \<Rightarrow> replies \<Rightarrow> pump_state \<Rightarrow> flow \<times> io list" where
  "tap_to_sock e mtu env st =
     (if rtotal st = 0 then
        (case read_r env of
           Failed errno \<Rightarrow> (on_errno errno st, [Read_tap mtu []])
         | Got frame \<Rightarrow>
             (let data = take (nat mtu) frame;
                  count = int (length data)
              in if count = 0 then (Continue st, [Read_tap mtu data])
                 else
                   (let (b0, b1) = b_u16_b e (word_of_int count);
                        st1 = st\<lparr>rbuf := blit (blit (rbuf st) (nat hsz) data) 0 [b0, b1],
                                 rtotal := count + hsz, roff := 0\<rparr>;
                        (f, tr) = send_frame env st1
                    in (f, Read_tap mtu data # tr))))
      else send_frame env st)"

text \<open>Lines 533--548: write the payload to the TAP, reset when drained.\<close>

definition write_frame :: "replies \<Rightarrow> pump_state \<Rightarrow> flow \<times> io list" where
  "write_frame env st =
     (let reset = (\<lambda>s. if woff s \<ge> wtotal s then s\<lparr>woff := 0, wtotal := 0\<rparr> else s) in
      if woff st < wtotal st then
        (let len = wtotal st - woff st in
         case write_r env of
           Failed errno \<Rightarrow> (on_errno errno st, [Write_tap (woff st + hsz) len []])
         | Got n \<Rightarrow>
             (let count = min (int n) len
              in (Fall (reset (st\<lparr>woff := woff st + count\<rparr>)),
                  [Write_tap (woff st + hsz) len
                     (handed (wbuf st) (past_wbuf env) (nat (woff st + hsz)) (nat count))])))
      else (Fall (reset st), []))"

text \<open>
  Lines 516--549. \<^verbatim>\<open>wtotal = view->i\<close> reads the first two bytes of \<open>wbuf\<close>
  whatever the datagram's size; the array has at least \<open>hsz\<close> bytes.
\<close>

definition sock_to_tap :: "endian \<Rightarrow> int \<Rightarrow> replies \<Rightarrow> pump_state \<Rightarrow> flow \<times> io list" where
  "sock_to_tap e mtu env st =
     (if wtotal st = 0 then
        (case recvfrom_r env of
           Failed errno \<Rightarrow> (on_errno errno st, [Recvfrom mtu []])
         | Got dgram \<Rightarrow>
             (let data = take (nat mtu) dgram;
                  count = int (length data)
              in if count = 0 then (Continue st, [Recvfrom mtu data])
                 else
                   (let wbuf' = blit (wbuf st) 0 data;
                        st1 = st\<lparr>wbuf := wbuf',
                                 wtotal := uint (b_u16_i e (wbuf' ! 0, wbuf' ! 1))\<rparr>;
                        (f, tr) = write_frame env st1
                    in (f, Recvfrom mtu data # tr))))
      else write_frame env st)"

text \<open>One iteration of the loop, lines 469--550.\<close>

definition pump_iter :: "endian \<Rightarrow> int \<Rightarrow> replies \<Rightarrow> pump_state \<Rightarrow> flow \<times> io list" where
  "pump_iter e mtu env st =
     (case select_r env of
        Failed errno \<Rightarrow> (Return errno, [Select])
      | Got (tun_set, read_set) \<Rightarrow>
          (let (f1, tr1) = (if tun_set then tap_to_sock e mtu env st else (Fall st, []))
           in case f1 of
                Fall st1 \<Rightarrow>
                  (let (f2, tr2) = (if read_set then sock_to_tap e mtu env st1
                                    else (Fall st1, []))
                   in (f2, Select # tr1 @ tr2))
              | _ \<Rightarrow> (f1, Select # tr1)))"

text \<open>
  The loop has no exit of its own. It is run over the kernel's answers for finitely many
  iterations: the result is the value returned, or the state with which the next iteration
  starts.
\<close>

datatype pump_result = Returned int | Running pump_state

fun pump_loop :: "endian \<Rightarrow> int \<Rightarrow> replies list \<Rightarrow> pump_state \<Rightarrow> pump_result \<times> io list" where
  "pump_loop e mtu [] st = (Running st, [])"
| "pump_loop e mtu (env # envs) st =
     (case pump_iter e mtu env st of
        (Return r, tr) \<Rightarrow> (Returned r, tr)
      | (Fall st', tr) \<Rightarrow> (let (res, tr') = pump_loop e mtu envs st' in (res, tr @ tr'))
      | (Continue st', tr) \<Rightarrow> (let (res, tr') = pump_loop e mtu envs st' in (res, tr @ tr')))"

text \<open>Lines 451--467: the buffers are zeroed, both directions start idle.\<close>

definition pump_init :: "int \<Rightarrow> pump_state" where
  "pump_init mtu =
     \<lparr>rbuf = replicate (nat mtu) 0, wbuf = replicate (nat mtu) 0,
      roff = 0, woff = 0, rtotal = 0, wtotal = 0\<rparr>"

definition pump :: "endian \<Rightarrow> int \<Rightarrow> replies list \<Rightarrow> pump_result \<times> io list" where
  "pump e mtu envs = pump_loop e (mtu + hsz) envs (pump_init (mtu + hsz))"


fun tap_out :: "io list \<Rightarrow> byte list" where
  "tap_out [] = []"
| "tap_out (Write_tap off len bs # tr) = bs @ tap_out tr"
| "tap_out (c # tr) = tap_out tr"



section \<open>The generic forwarder (\<^verbatim>\<open>forward.c\<close>)\<close>

text \<open>
  Every transfer is one submission to the ring followed by a wait for its completion.
  The answer to one trip round a primitive's loop is
  \<^item> \<open>No_sqe\<close>: \<^verbatim>\<open>io_uring_get_sqe\<close> returned \<open>NULL\<close>;
  \<^item> \<open>Wait_failed ret\<close>: \<^verbatim>\<open>io_uring_wait_cqe\<close> returned \<open>ret\<close>, which is negative;
  \<^item> \<open>Cqe res bytes\<close>: the completion's \<^verbatim>\<open>res\<close>; for a read with \<open>res > 0\<close>
    the kernel has placed the first \<open>res\<close> of \<open>bytes\<close> at the destination.
  \<open>stopped\<close> tells that \<^verbatim>\<open>fwd_stop\<close> ran in another thread while the worker
  waited. A worker blocks nowhere else, so the flag changes only there.
\<close>

datatype cqe = No_sqe | Wait_failed int | Cqe int "byte list"

record completion =
  answer :: cqe
  stopped :: bool

text \<open>A submission: the buffer offset and the length, or the lengths of the ranges.\<close>

datatype sub = Sub_read nat int | Sub_write nat int | Sub_writev "nat list"

text \<open>
  What a worker can see and change: the flag \<^verbatim>\<open>working\<close>, its buffer \<open>buf\<close>,
  and, for the properties below, the submissions made and the bytes the sink took.
\<close>

record world =
  working :: bool
  mem :: "byte list"
  subs :: "sub list"
  out :: "byte list"

definition fwd_stop :: "world \<Rightarrow> world" where
  "fwd_stop w = w\<lparr>working := False\<rparr>"

definition submitted :: "sub \<Rightarrow> completion \<Rightarrow> world \<Rightarrow> world" where
  "submitted s c w = w\<lparr>subs := subs w @ [s], working := (working w \<and> \<not> stopped c)\<rparr>"

definition ENOMEM :: int where
  "ENOMEM = 12"

text \<open>
  Lines 158--223, the loop of \<^verbatim>\<open>read_fd\<close>; \<open>dst\<close> is always \<open>buf\<close>. The result is
  \<open>None\<close> when the loop is still waiting after the last answer. \<open>rc\<close>, \<open>ro\<close> and
  \<open>count\<close> are \<open>uint16_t\<close>; \<^verbatim>\<open>rc = cqe->res\<close> truncates.
\<close>

fun read_loop ::
  "completion list \<Rightarrow> world \<Rightarrow> 16 word \<Rightarrow> bool \<Rightarrow> 16 word
     \<Rightarrow> (int \<times> world \<times> completion list) option" where
  "read_loop [] w count exact ro =
     (if working w \<and> ro < count then None else Some (uint ro, w, []))"
| "read_loop (c # cs) w count exact ro =
     (if working w \<and> ro < count then
        (let rem = uint count - uint ro;
             w1 = submitted (Sub_read (unat ro) rem) c w
         in case answer c of
              No_sqe \<Rightarrow> Some (- 1, w, cs)
            | Wait_failed ret \<Rightarrow> Some (ret, w1, cs)
            | Cqe res bytes \<Rightarrow>
                if res < 0 then Some (0, w1, cs)
                else
                  (let w2 = w1\<lparr>mem := blit (mem w1) (unat ro) (take (nat res) bytes)\<rparr>;
                       rc = (word_of_int res :: 16 word)
                   in if rc \<le> 0 then read_loop cs w2 count exact ro
                      else if \<not> exact then Some (uint (ro + rc), w2, cs)
                      else read_loop cs w2 count exact (ro + rc)))
      else Some (uint ro, w, c # cs))"

definition read_fd ::
  "completion list \<Rightarrow> world \<Rightarrow> 16 word \<Rightarrow> bool \<Rightarrow> (int \<times> world \<times> completion list) option" where
  "read_fd cs w count exact = read_loop cs w count exact 0"

text \<open>Lines 248--276, the loop of \<^verbatim>\<open>write_fd\<close>; \<open>wo\<close> is a \<open>size_t\<close>.\<close>

fun write_loop ::
  "completion list \<Rightarrow> world \<Rightarrow> byte list \<Rightarrow> 16 word \<Rightarrow> nat
     \<Rightarrow> (int \<times> world \<times> completion list) option" where
  "write_loop [] w src count wo =
     (if working w \<and> wo < unat count then None else Some (0, w, []))"
| "write_loop (c # cs) w src count wo =
     (if working w \<and> wo < unat count then
        (let w1 = submitted (Sub_write wo (uint count - int wo)) c w
         in case answer c of
              No_sqe \<Rightarrow> Some (- 1, w, cs)
            | Wait_failed ret \<Rightarrow> Some (ret, w1, cs)
            | Cqe wc bytes \<Rightarrow>
                if wc < 0 then Some (- 2, w1, cs)
                else write_loop cs (w1\<lparr>out := out w1 @ slice src wo (nat wc)\<rparr>) src count
                       (wo + nat wc))
      else Some (0, w, c # cs))"

definition write_fd ::
  "completion list \<Rightarrow> world \<Rightarrow> byte list \<Rightarrow> 16 word \<Rightarrow> (int \<times> world \<times> completion list) option" where
  "write_fd cs w src count = write_loop cs w src count 0"

text \<open>
  Lines 293--295 of \<^verbatim>\<open>writev_fd\<close>: \<^verbatim>\<open>count = iovecs[i].iov_len\<close> for each range in
  turn. A range is modelled by the bytes it holds.
\<close>

definition writev_count :: "byte list list \<Rightarrow> nat" where
  "writev_count iovecs = fold (\<lambda>v count. length v) iovecs 0"

text \<open>
  Lines 297--327: every submission passes \<open>iovecs\<close> and \<open>nr_vecs\<close> as they were given,
  so a completion of \<open>wc\<close> bytes has taken the first \<open>wc\<close> bytes of the ranges.
\<close>

fun writev_loop ::
  "completion list \<Rightarrow> world \<Rightarrow> byte list list \<Rightarrow> nat \<Rightarrow> nat
     \<Rightarrow> (int \<times> world \<times> completion list) option" where
  "writev_loop [] w iovecs count wo =
     (if working w \<and> wo < count then None else Some (0, w, []))"
| "writev_loop (c # cs) w iovecs count wo =
     (if working w \<and> wo < count then
        (let w1 = submitted (Sub_writev (map length iovecs)) c w
         in case answer c of
              No_sqe \<Rightarrow> Some (- 1, w, cs)
            | Wait_failed ret \<Rightarrow> Some (ret, w1, cs)
            | Cqe wc bytes \<Rightarrow>
                if wc < 0 then Some (wc, w1, cs)
                else writev_loop cs (w1\<lparr>out := out w1 @ take (nat wc) (concat iovecs)\<rparr>)
                       iovecs count (wo + nat wc))
      else Some (0, w, c # cs))"

definition writev_fd ::
  "completion list \<Rightarrow> world \<Rightarrow> byte list list \<Rightarrow> (int \<times> world \<times> completion list) option" where
  "writev_fd cs w iovecs = writev_loop cs w iovecs (writev_count iovecs) 0"

record fwd_args =
  read_sz :: "16 word"
  read_hdr :: bool
  write_hdr :: bool

text \<open>
  \<^verbatim>\<open>sz.b[0] = buf[0]; sz.b[1] = buf[1]\<close>: with \<open>read_sz < 2\<close> this reads past the
  allocation, where the model has no byte and puts 0.
\<close>

definition byte_at :: "byte list \<Rightarrow> nat \<Rightarrow> byte" where
  "byte_at buf i = (if i < length buf then buf ! i else 0)"

text \<open>How one trip round the loop of \<^verbatim>\<open>fwd\<close> ends, with the value of \<open>ret\<close>.\<close>

datatype trip = Goto_end int world "completion list" | Again int world "completion list"

text \<open>Lines 370--383: the size of the chunk to read and the \<open>exact\<close> flag.\<close>

definition fwd_header ::
  "endian \<Rightarrow> fwd_args \<Rightarrow> completion list \<Rightarrow> world
     \<Rightarrow> (trip + 16 word \<times> bool \<times> world \<times> completion list) option" where
  "fwd_header e args cs w =
     (if read_hdr args then
        do {
          (ret, w1, cs1) \<leftarrow> read_fd cs w 2 True;
          if ret < 0 then Some (Inl (Goto_end ret w1 cs1))
          else Some (Inr (b_u16_i e (byte_at (mem w1) 0, byte_at (mem w1) 1), True, w1, cs1))
        }
      else Some (Inr (read_sz args, False, w, cs)))"

text \<open>
  The \<open>sz\<close> bytes at \<open>buf\<close>, which the write is given with the length \<open>sz.i\<close>. Where
  they run past the allocation the model has no byte and puts 0, as for \<open>byte_at\<close>.
\<close>

definition chunk :: "byte list \<Rightarrow> 16 word \<Rightarrow> byte list" where
  "chunk buf sz = map (byte_at buf) [0 ..< unat sz]"

text \<open>
  Lines 396--418. \<open>write_fd\<close> and \<open>writev_fd\<close> use the second registered file. The
  ranges are \<open>sz.b\<close> with \<^verbatim>\<open>sizeof(sz.i)\<close> bytes and \<open>buf\<close> with \<open>sz.i\<close> bytes.
\<close>

definition fwd_write ::
  "endian \<Rightarrow> fwd_args \<Rightarrow> completion list \<Rightarrow> world \<Rightarrow> 16 word \<Rightarrow> trip option" where
  "fwd_write e args cs w sz =
     do {
       (ret, w1, cs1) \<leftarrow>
         (if write_hdr args then
            (let (b0, b1) = b_u16_b e sz
             in writev_fd cs w [[b0, b1], chunk (mem w) sz])
          else write_fd cs w (chunk (mem w) sz) sz);
       if ret < 0 then Some (Goto_end ret w1 cs1) else Some (Again ret w1 cs1)
     }"

text \<open>Lines 367--418, the body of \<^verbatim>\<open>while (working)\<close>.\<close>

definition fwd_body :: "endian \<Rightarrow> fwd_args \<Rightarrow> completion list \<Rightarrow> world \<Rightarrow> trip option" where
  "fwd_body e args cs w =
     do {
       h \<leftarrow> fwd_header e args cs w;
       case h of
         Inl t \<Rightarrow> Some t
       | Inr (sz, exact, w1, cs1) \<Rightarrow>
           do {
             (ret, w2, cs2) \<leftarrow> read_fd cs1 w1 sz exact;
             if ret < 0 then Some (Goto_end ret w2 cs2)
             else if (word_of_int ret :: 16 word) \<le> 0 then Some (Again ret w2 cs2)
             else fwd_write e args cs2 w2 (word_of_int ret)
           }
     }"

text \<open>
  The loop of \<^verbatim>\<open>fwd\<close>. A trip need not consume an answer (a chunk size of 0 reads
  nothing), so the number of trips is bounded by \<open>fuel\<close>; \<open>None\<close> is a loop that has
  not returned, for lack of fuel or of answers.
\<close>

fun fwd_loop ::
  "nat \<Rightarrow> endian \<Rightarrow> fwd_args \<Rightarrow> completion list \<Rightarrow> world \<Rightarrow> int
     \<Rightarrow> (int \<times> world \<times> completion list) option" where
  "fwd_loop 0 e args cs w ret = (if working w then None else Some (ret, w, cs))"
| "fwd_loop (Suc fuel) e args cs w ret =
     (if working w then
        (case fwd_body e args cs w of
           None \<Rightarrow> None
         | Some (Goto_end r w' cs') \<Rightarrow> Some (r, w', cs')
         | Some (Again r w' cs') \<Rightarrow> fwd_loop fuel e args cs' w' r)
      else Some (ret, w, cs))"

text \<open>
  \<^verbatim>\<open>fwd\<close>, lines 330--427. \<open>heap\<close> is the block \<^verbatim>\<open>malloc(read_sz)\<close> returns
  (\<open>None\<close> for \<open>NULL\<close>), \<open>reg\<close> the result of \<^verbatim>\<open>io_uring_register_files\<close>, \<open>flag\<close> the
  value of \<^verbatim>\<open>working\<close> when the worker starts.
\<close>

definition fwd ::
  "nat \<Rightarrow> endian \<Rightarrow> fwd_args \<Rightarrow> byte list option \<Rightarrow> int \<Rightarrow> bool \<Rightarrow> completion list
     \<Rightarrow> (int \<times> world \<times> completion list) option" where
  "fwd fuel e args heap reg flag cs =
     (case heap of
        None \<Rightarrow> Some (- ENOMEM, \<lparr>working = flag, mem = [], subs = [], out = []\<rparr>, cs)
      | Some block \<Rightarrow>
          (let w = \<lparr>working = flag, mem = block, subs = [], out = []\<rparr>
           in if reg < 0 then Some (reg, w, cs) else fwd_loop fuel e args cs w reg))"


section \<open>Notions used to state the properties\<close>





text \<open>An iteration in which \<^verbatim>\<open>select\<close> reports nothing and every call would block.\<close>

definition quiet :: replies where
  "quiet = \<lparr>select_r = Got (False, False), read_r = Failed EAGAIN, sendto_r = Failed EAGAIN,
            recvfrom_r = Failed EAGAIN, write_r = Failed EAGAIN,
            past_rbuf = (\<lambda>i. 0), past_wbuf = (\<lambda>i. 0)\<rparr>"



text \<open>One of the calls of the iteration failed with \<open>errno = r\<close>.\<close>

definition failed_with :: "replies \<Rightarrow> int \<Rightarrow> bool" where
  "failed_with env r \<longleftrightarrow>
     select_r env = Failed r \<or> read_r env = Failed r \<or> sendto_r env = Failed r
     \<or> recvfrom_r env = Failed r \<or> write_r env = Failed r"

text \<open>A read that completes with 0 bytes: the source is at end of file.\<close>

definition eof :: completion where
  "eof = \<lparr>answer = Cqe 0 [], stopped = False\<rparr>"

text \<open>
  The worker has seen the cleared flag, or an answer still to come arrives together with
  the stop (an answer without a wait, \<open>No_sqe\<close>, cannot bring it).
\<close>

definition stop_due :: "world \<Rightarrow> completion list \<Rightarrow> bool" where
  "stop_due w cs \<longleftrightarrow> \<not> working w \<or> (\<exists>c\<in>set cs. stopped c \<and> answer c \<noteq> No_sqe)"

text \<open>A trip that goes round again leaves a stop due and at most \<open>n\<close> answers.\<close>

fun trip_ok :: "nat \<Rightarrow> trip \<Rightarrow> bool" where
  "trip_ok n (Goto_end r w cs) = True"
| "trip_ok n (Again r w cs) = (stop_due w cs \<and> length cs \<le> n)"

section \<open>The length field\<close>

lemma b_u16_roundtrip: "b_u16_i e (b_u16_b e i) = i"
proof (cases e)
  case Little_endian
  then show ?thesis
    by (simp add: b_u16_i_def b_u16_b_def) (rule bit_word_eqI; auto simp: bit_simps)
next
  case Big_endian
  then show ?thesis
    by (simp add: b_u16_i_def b_u16_b_def) (rule bit_word_eqI; auto simp: bit_simps)
qed

text \<open>
  Claim C9. A length \<open>L\<close> with \<open>0 \<le> L \<le> 65535\<close>, stored in member \<open>i\<close> of the union
  (as \<^verbatim>\<open>view->i = count\<close> and \<^verbatim>\<open>sz.i = ret\<close> do), written out as the two bytes
  \<open>b[0]\<close>, \<open>b[1]\<close> and read back through member \<open>i\<close>, is \<open>L\<close> again, on a host of
  either byte order.
\<close>

theorem length_field_roundtrip:
  assumes "0 \<le> L" and "L \<le> 65535"
  shows "uint (b_u16_i e (b_u16_b e (word_of_int L))) = L"
  using assms by (simp add: b_u16_roundtrip uint_word_of_int take_bit_int_eq_self)

theorem length_field_roundtrip_witness:
  "(0::int) \<le> 590 \<and> (590::int) \<le> 65535
   \<and> uint (b_u16_i Big_endian (b_u16_b Big_endian (word_of_int 590))) = 590"
  using length_field_roundtrip [of 590 Big_endian] by simp

section \<open>The forwarder's primitives\<close>

text \<open>
  Claim C5, at two inputs of \<^verbatim>\<open>writev_fd\<close>. The claim asks that the ranges be written
  completely and once. With the ranges \<open>01 00\<close> and \<open>2A\<close> (a header and a payload of one
  byte), a first completion of one byte ends the call with 0: \<open>count\<close> is the length of
  the last range, not the sum, and two of the three bytes are never written. With the
  ranges \<open>03 00\<close> and \<open>07 08 09\<close>, a first completion of two bytes is followed by a
  second submission of the same ranges from their start, and the sink receives the header
  twice.
\<close>

theorem writev_fd_short_and_repeated:
  "writev_fd [\<lparr>answer = Cqe 1 [], stopped = False\<rparr>]
      \<lparr>working = True, mem = [], subs = [], out = []\<rparr> [[0x01, 0x00], [0x2A]]
     = Some (0, \<lparr>working = True, mem = [], subs = [Sub_writev [2, 1]], out = [0x01]\<rparr>, [])
   \<and> writev_fd [\<lparr>answer = Cqe 2 [], stopped = False\<rparr>, \<lparr>answer = Cqe 5 [], stopped = False\<rparr>]
      \<lparr>working = True, mem = [], subs = [], out = []\<rparr> [[0x03, 0x00], [7, 8, 9]]
     = Some (0, \<lparr>working = True, mem = [],
                subs = [Sub_writev [2, 3], Sub_writev [2, 3]],
                out = [3, 0, 3, 0, 7, 8, 9]\<rparr>, [])"
  by code_simp

text \<open>
  Claim C7, at a failing input. A forwarder without read framing and a chunk size of 4
  gets \<open>-9\<close> (\<open>EBADF\<close>) as the result of its read. \<^verbatim>\<open>read_fd\<close> returns 0, which
  \<^verbatim>\<open>fwd\<close> takes for an empty chunk: it goes round its loop and submits the same read
  again. It returns, with 0, only because the second answer comes with a stop.
\<close>

theorem fwd_read_error_swallowed:
  "fwd 2 Little_endian \<lparr>read_sz = 4, read_hdr = False, write_hdr = False\<rparr>
      (Some [0, 0, 0, 0]) 0 True
      [\<lparr>answer = Cqe (- 9) [], stopped = False\<rparr>, \<lparr>answer = Cqe (- 9) [], stopped = True\<rparr>]
   = Some (0, \<lparr>working = False, mem = [0, 0, 0, 0],
              subs = [Sub_read 0 4, Sub_read 0 4], out = []\<rparr>, [])"
  by code_simp

text \<open>
  Claim C10, at a failing input. The forwarder reads framed chunks into a buffer of
  \<open>read_sz = 4\<close> bytes. A header \<open>08 00\<close> announces 8 bytes: the payload read is
  submitted for 8 bytes at offset 0, and after a completion of 4 bytes for 4 more bytes at
  offset 4, the first byte past the buffer.
\<close>

theorem fwd_header_overruns_buffer:
  "fwd 2 Little_endian \<lparr>read_sz = 4, read_hdr = True, write_hdr = False\<rparr>
      (Some [0, 0, 0, 0]) 0 True
      [\<lparr>answer = Cqe 2 [8, 0], stopped = False\<rparr>,
       \<lparr>answer = Cqe 4 [1, 2, 3, 4], stopped = False\<rparr>,
       \<lparr>answer = Cqe 4 [5, 6, 7, 8], stopped = True\<rparr>]
   = Some (0, \<lparr>working = False, mem = [1, 2, 3, 4],
              subs = [Sub_read 0 2, Sub_read 0 8, Sub_read 4 4], out = []\<rparr>, [])"
  by code_simp

section \<open>The pump: what is read is what is sent\<close>

lemma slice_append: "slice buf off n @ slice buf (off + n) m = slice buf off (n + m)"
  by (simp add: slice_def take_add add.commute [of off n])




























section \<open>The pump: from the socket to the TAP\<close>

text \<open>
  Claim C1, at the spec's own failing input. With an MTU of 1486 the buffers have 1488
  bytes. A datagram whose length field is \<open>00 10\<close> (4096) is not discarded: \<open>wtotal\<close>
  becomes 4096 and \<^verbatim>\<open>write(tun_fd, wbuf + 2, 4096)\<close> is called. The TAP is handed 4096
  bytes: the 4 that came with the datagram, the 1482 that the buffer held before, and 2610
  from the memory past the end of \<open>wbuf\<close> (here \<open>5A\<close>). The pump has no error counter.
\<close>

theorem oversize_datagram_written:
  "pump Little_endian 1486
     [quiet\<lparr>select_r := Got (False, True), recvfrom_r := Got [0x00, 0x10, 0xCA, 0xFE, 0xBA, 0xBE],
            write_r := Got 4096, past_wbuf := (\<lambda>i. 0x5A)\<rparr>]
   = (Running ((pump_init 1488)\<lparr>wbuf := [0x00, 0x10, 0xCA, 0xFE, 0xBA, 0xBE] @ replicate 1482 0\<rparr>),
      [Select, Recvfrom 1488 [0x00, 0x10, 0xCA, 0xFE, 0xBA, 0xBE],
       Write_tap 2 4096 ([0xCA, 0xFE, 0xBA, 0xBE] @ replicate 1482 0 @ replicate 2610 0x5A)])
   \<and> length (tap_out [Select, Recvfrom 1488 [0x00, 0x10, 0xCA, 0xFE, 0xBA, 0xBE],
       Write_tap 2 4096 ([0xCA, 0xFE, 0xBA, 0xBE] @ replicate 1482 0 @ replicate 2610 0x5A)])
      = 4096"
  by (simp add: pump_def pump_init_def pump_iter_def sock_to_tap_def write_frame_def quiet_def
      hsz_def b_u16_i_def blit_def handed_def slice_def Let_def map_replicate_const)

section \<open>The pump: bounds of the staging buffer\<close>

text \<open>
  Claim C8, at a failing input. The claim bounds \<open>rtotal\<close> by \<open>MTU + 2\<close>, the size of
  the buffer. With an MTU of 590 the buffer has 592 bytes, and the read from the TAP asks
  for 592 bytes at offset 2. A frame of 592 bytes gives \<open>rtotal = 594\<close>; its last two
  bytes are stored past the end of \<open>rbuf\<close>, and \<^verbatim>\<open>sendto\<close> is asked to send 594 bytes.
\<close>

theorem tap_read_overruns_buffer:
  "pump Little_endian 590
     [quiet\<lparr>select_r := Got (True, False), read_r := Got (replicate 592 0xAB)\<rparr>]
   = (Running ((pump_init 592)\<lparr>rbuf := [0x50, 0x02] @ replicate 590 0xAB, rtotal := 594\<rparr>),
      [Select, Read_tap 592 (replicate 592 0xAB), Sendto 0 594 []])"
  by (simp add: pump_def pump_init_def pump_iter_def tap_to_sock_def send_frame_def on_errno_def quiet_def
      hsz_def b_u16_b_def blit_def handed_def slice_def Let_def)

section \<open>Shutdown\<close>

lemma read_loop_stopped:
  "\<not> working w \<Longrightarrow> read_loop cs w count exact ro = Some (uint ro, w, cs)"
  by (cases cs) simp_all

lemma write_loop_stopped:
  "\<not> working w \<Longrightarrow> write_loop cs w src count wo = Some (0, w, cs)"
  by (cases cs) simp_all

lemma writev_loop_stopped:
  "\<not> working w \<Longrightarrow> writev_loop cs w iovecs count wo = Some (0, w, cs)"
  by (cases cs) simp_all

lemma fwd_loop_stopped:
  "\<not> working w \<Longrightarrow> fwd_loop fuel e args cs w ret = Some (ret, w, cs)"
  by (cases fuel) simp_all

lemma read_loop_returns:
  "stop_due w cs \<Longrightarrow>
   \<exists>r w' cs'. read_loop cs w count exact ro = Some (r, w', cs') \<and> stop_due w' cs'
      \<and> length cs' \<le> length cs \<and> (working w \<and> ro < count \<longrightarrow> length cs' < length cs)"
proof (induction cs arbitrary: w ro)
  case Nil
  then show ?case by (simp add: stop_due_def)
next
  case (Cons c cs)
  show ?case
  proof (cases "working w \<and> ro < count")
    case False
    with Cons.prems show ?thesis by auto
  next
    case True
    let ?w1 = "submitted (Sub_read (unat ro) (uint count - uint ro)) c w"
    have w1: "stop_due ?w1 cs"
      using Cons.prems True by (auto simp: stop_due_def submitted_def)
    show ?thesis
    proof (cases "answer c")
      case No_sqe
      with Cons.prems True show ?thesis by (auto simp: stop_due_def)
    next
      case (Wait_failed ret)
      with w1 True show ?thesis by (simp add: Let_def)
    next
      case (Cqe res bytes)
      let ?w2 = "?w1\<lparr>mem := blit (mem ?w1) (unat ro) (take (nat res) bytes)\<rparr>"
      have w2: "stop_due ?w2 cs"
        using w1 by (simp add: stop_due_def)
      from Cons.IH [OF w2, of ro] Cons.IH [OF w2, of "ro + word_of_int res"] w1 w2 True Cqe
      show ?thesis
        by (auto simp: Let_def)
    qed
  qed
qed

lemma write_loop_returns:
  "stop_due w cs \<Longrightarrow>
   \<exists>r w' cs'. write_loop cs w src count wo = Some (r, w', cs') \<and> stop_due w' cs'
      \<and> length cs' \<le> length cs"
proof (induction cs arbitrary: w wo)
  case Nil
  then show ?case by (simp add: stop_due_def)
next
  case (Cons c cs)
  show ?case
  proof (cases "working w \<and> wo < unat count")
    case False
    with Cons.prems show ?thesis by auto
  next
    case True
    let ?w1 = "submitted (Sub_write wo (uint count - int wo)) c w"
    have w1: "stop_due ?w1 cs"
      using Cons.prems True by (auto simp: stop_due_def submitted_def)
    show ?thesis
    proof (cases "answer c")
      case No_sqe
      with Cons.prems True show ?thesis by (auto simp: stop_due_def)
    next
      case (Wait_failed ret)
      with w1 True show ?thesis by (simp add: Let_def)
    next
      case (Cqe wc bytes)
      let ?w2 = "?w1\<lparr>out := out ?w1 @ slice src wo (nat wc)\<rparr>"
      have w2: "stop_due ?w2 cs"
        using w1 by (simp add: stop_due_def)
      from Cons.IH [OF w2, of "wo + nat wc"] w1 True Cqe
      show ?thesis
        by (auto simp: Let_def)
    qed
  qed
qed

lemma writev_loop_returns:
  "stop_due w cs \<Longrightarrow>
   \<exists>r w' cs'. writev_loop cs w iovecs count wo = Some (r, w', cs') \<and> stop_due w' cs'
      \<and> length cs' \<le> length cs"
proof (induction cs arbitrary: w wo)
  case Nil
  then show ?case by (simp add: stop_due_def)
next
  case (Cons c cs)
  show ?case
  proof (cases "working w \<and> wo < count")
    case False
    with Cons.prems show ?thesis by auto
  next
    case True
    let ?w1 = "submitted (Sub_writev (map length iovecs)) c w"
    have w1: "stop_due ?w1 cs"
      using Cons.prems True by (auto simp: stop_due_def submitted_def)
    show ?thesis
    proof (cases "answer c")
      case No_sqe
      with Cons.prems True show ?thesis by (auto simp: stop_due_def)
    next
      case (Wait_failed ret)
      with w1 True show ?thesis by (simp add: Let_def)
    next
      case (Cqe wc bytes)
      let ?w2 = "?w1\<lparr>out := out ?w1 @ take (nat wc) (concat iovecs)\<rparr>"
      have w2: "stop_due ?w2 cs"
        using w1 by (simp add: stop_due_def)
      from Cons.IH [OF w2, of "wo + nat wc"] w1 True Cqe
      show ?thesis
        by (auto simp: Let_def)
    qed
  qed
qed


lemma fwd_write_returns:
  assumes "stop_due w cs"
  shows "\<exists>t. fwd_write e args cs w sz = Some t \<and> trip_ok (length cs) t"
proof (cases "write_hdr args")
  case True
  obtain b0 b1 where b: "b_u16_b e sz = (b0, b1)" by (cases "b_u16_b e sz")
  from writev_loop_returns [OF assms, of "[[b0, b1], chunk (mem w) sz]"
      "writev_count [[b0, b1], chunk (mem w) sz]" 0]
  obtain r w' cs' where "writev_fd cs w [[b0, b1], chunk (mem w) sz] = Some (r, w', cs')"
    "stop_due w' cs'" "length cs' \<le> length cs"
    by (auto simp: writev_fd_def)
  with True b show ?thesis
    by (simp add: fwd_write_def)
next
  case False
  from write_loop_returns [OF assms, of "chunk (mem w) sz" sz 0]
  obtain r w' cs' where "write_fd cs w (chunk (mem w) sz) sz = Some (r, w', cs')"
    "stop_due w' cs'" "length cs' \<le> length cs"
    by (auto simp: write_fd_def)
  with False show ?thesis
    by (simp add: fwd_write_def)
qed

lemma trip_ok_mono: "trip_ok n t \<Longrightarrow> n \<le> m \<Longrightarrow> trip_ok m t"
  by (cases t) simp_all

lemma fwd_payload_returns:
  assumes "stop_due w cs"
  shows "\<exists>t. (do {
             (ret, w2, cs2) \<leftarrow> read_fd cs w sz exact;
             if ret < 0 then Some (Goto_end ret w2 cs2)
             else if (word_of_int ret :: 16 word) \<le> 0 then Some (Again ret w2 cs2)
             else fwd_write e args cs2 w2 (word_of_int ret)
           }) = Some t \<and> trip_ok (length cs) t
           \<and> (working w \<and> sz \<noteq> 0 \<and> 0 < length cs \<longrightarrow> trip_ok (length cs - 1) t)"
proof -
  from read_loop_returns [OF assms, of sz exact 0]
  obtain r w2 cs2 where rd: "read_fd cs w sz exact = Some (r, w2, cs2)"
    and sd: "stop_due w2 cs2" and le: "length cs2 \<le> length cs"
    and lt: "working w \<and> 0 < sz \<longrightarrow> length cs2 < length cs"
    by (auto simp: read_fd_def)
  have lt': "working w \<and> sz \<noteq> 0 \<longrightarrow> length cs2 \<le> length cs - 1"
    using lt by (auto simp: word_neq_0_conv)
  from fwd_write_returns [OF sd, of e args "word_of_int r"]
  obtain t where wr: "fwd_write e args cs2 w2 (word_of_int r) = Some t" and tk: "trip_ok (length cs2) t"
    by auto
  show ?thesis
    using rd sd le lt' wr trip_ok_mono [OF tk le] trip_ok_mono [OF tk, of "length cs - 1"]
    by auto
qed

lemma fwd_body_returns:
  assumes "stop_due w cs"
  shows "\<exists>t. fwd_body e args cs w = Some t \<and> trip_ok (length cs) t
           \<and> (working w \<and> (read_hdr args \<or> read_sz args \<noteq> 0) \<longrightarrow> trip_ok (length cs - 1) t)"
proof (cases "read_hdr args")
  case False
  with fwd_payload_returns [OF assms, of "read_sz args" False e args] show ?thesis
    apply (simp add: fwd_body_def fwd_header_def)
    apply (cases cs)
     apply (auto simp: stop_due_def)
    done
next
  case True
  from read_loop_returns [OF assms, of 2 True 0]
  obtain r w1 cs1 where rd: "read_fd cs w 2 True = Some (r, w1, cs1)"
    and sd: "stop_due w1 cs1" and le: "length cs1 \<le> length cs"
    and lt: "working w \<longrightarrow> length cs1 < length cs"
    by (auto simp: read_fd_def)
  let ?sz = "b_u16_i e (byte_at (mem w1) 0, byte_at (mem w1) 1)"
  from fwd_payload_returns [OF sd, of ?sz True e args]
  obtain t where p: "(do {
             (ret, w2, cs2) \<leftarrow> read_fd cs1 w1 ?sz True;
             if ret < 0 then Some (Goto_end ret w2 cs2)
             else if (word_of_int ret :: 16 word) \<le> 0 then Some (Again ret w2 cs2)
             else fwd_write e args cs2 w2 (word_of_int ret)
           }) = Some t" and tk: "trip_ok (length cs1) t"
    by blast
  have lt': "working w \<longrightarrow> length cs1 \<le> length cs - 1" using lt by auto
  show ?thesis
  proof (cases "r < 0")
    case neg: True
    with True rd show ?thesis
      by (simp add: fwd_body_def fwd_header_def)
  next
    case False
    with True rd p have "fwd_body e args cs w = Some t"
      by (simp add: fwd_body_def fwd_header_def)
    with trip_ok_mono [OF tk le] trip_ok_mono [OF tk, of "length cs - 1"] lt' show ?thesis
      by auto
  qed
qed

lemma fwd_loop_returns:
  assumes "read_hdr args \<or> read_sz args \<noteq> 0"
  shows "stop_due w cs \<Longrightarrow> length cs \<le> fuel \<Longrightarrow>
     \<exists>r w' cs'. fwd_loop fuel e args cs w ret = Some (r, w', cs')"
proof (induction fuel arbitrary: cs w ret)
  case 0
  then show ?case by (simp add: stop_due_def)
next
  case (Suc fuel)
  show ?case
  proof (cases "working w")
    case False
    then show ?thesis by simp
  next
    case True
    from fwd_body_returns [OF Suc.prems(1), of e args] True assms
    obtain t where b: "fwd_body e args cs w = Some t" and tk: "trip_ok (length cs - 1) t"
      by blast
    show ?thesis
    proof (cases t)
      case (Goto_end r w' cs')
      with True b show ?thesis by simp
    next
      case (Again r w' cs')
      with tk have "stop_due w' cs'" "length cs' \<le> fuel"
        using Suc.prems(2) by auto
      from Suc.IH [OF this, of r] True b Again show ?thesis by simp
    qed
  qed
qed

lemma send_frame_return: "send_frame env st = (Return r, tr) \<Longrightarrow> sendto_r env = Failed r"
  by (auto simp: send_frame_def on_errno_def Let_def split: sysres.splits if_splits)

lemma tap_to_sock_return:
  "tap_to_sock e mtu env st = (Return r, tr) \<Longrightarrow> read_r env = Failed r \<or> sendto_r env = Failed r"
  by (auto simp: tap_to_sock_def on_errno_def Let_def
      split: sysres.splits if_splits prod.splits dest: send_frame_return)

lemma write_frame_return: "write_frame env st = (Return r, tr) \<Longrightarrow> write_r env = Failed r"
  by (auto simp: write_frame_def on_errno_def Let_def split: sysres.splits if_splits)

lemma sock_to_tap_return:
  "sock_to_tap e mtu env st = (Return r, tr) \<Longrightarrow> recvfrom_r env = Failed r \<or> write_r env = Failed r"
  by (auto simp: sock_to_tap_def on_errno_def Let_def
      split: sysres.splits if_splits prod.splits dest: write_frame_return)

lemma pump_iter_return:
  "pump_iter e mtu env st = (Return r, tr) \<Longrightarrow> failed_with env r"
  by (auto simp: pump_iter_def failed_with_def Let_def
      split: sysres.splits if_splits prod.splits flow.splits
      dest: tap_to_sock_return sock_to_tap_return)

lemma pump_loop_return:
  "pump_loop e mtu envs st = (Returned r, tr) \<Longrightarrow> \<exists>env\<in>set envs. failed_with env r"
proof (induction envs arbitrary: st tr)
  case Nil
  then show ?case by simp
next
  case (Cons env envs)
  obtain f tr1 where it: "pump_iter e mtu env st = (f, tr1)"
    by (cases "pump_iter e mtu env st")
  show ?case
  proof (cases f)
    case (Return r')
    with Cons.prems it pump_iter_return [of e mtu env st r' tr1] show ?thesis by auto
  next
    case (Fall st1)
    with Cons.prems it obtain tr2 where "pump_loop e mtu envs st1 = (Returned r, tr2)"
      by (auto split: prod.splits)
    from Cons.IH [OF this] show ?thesis by auto
  next
    case (Continue st1)
    with Cons.prems it obtain tr2 where "pump_loop e mtu envs st1 = (Returned r, tr2)"
      by (auto split: prod.splits)
    from Cons.IH [OF this] show ?thesis by auto
  qed
qed

text \<open>
  Claim C3, as amended: the forwarder, not the pump.
  \<^item> A forwarder that finds the flag cleared enters no I/O call: each of the loops of
    \<^verbatim>\<open>read_fd\<close>, \<^verbatim>\<open>write_fd\<close>, \<^verbatim>\<open>writev_fd\<close> and \<^verbatim>\<open>fwd\<close> returns at once,
    with no submission made and no answer consumed.
  \<^item> If the stop arrives with one of the answers the forwarder is given, and the chunk
    size is not 0 when reads are unframed, \<^verbatim>\<open>fwd\<close> returns within as many trips round
    its loop as there are answers.
  \<^item> The pump's loop leaves only by returning the \<open>errno\<close> of a call that failed.
\<close>

theorem stop_ends_forwarder:
  "(\<not> working w \<longrightarrow>
      read_loop cs w count exact ro = Some (uint ro, w, cs)
      \<and> write_loop cs w src count wo = Some (0, w, cs)
      \<and> writev_loop cs w iovecs n wo = Some (0, w, cs)
      \<and> fwd_loop fuel e args cs w ret = Some (ret, w, cs))
   \<and> (stop_due w cs \<and> (read_hdr args \<or> read_sz args \<noteq> 0) \<and> length cs \<le> fuel \<longrightarrow>
      (\<exists>r w' cs'. fwd_loop fuel e args cs w ret = Some (r, w', cs')))
   \<and> (pump_loop e mtu envs st = (Returned r, tr) \<longrightarrow> (\<exists>env\<in>set envs. failed_with env r))"
  using fwd_loop_returns [of args w cs fuel e ret] pump_loop_return [of e mtu envs st r tr]
  by (simp add: read_loop_stopped write_loop_stopped writev_loop_stopped fwd_loop_stopped)

theorem stop_ends_forwarder_witness:
  "\<not> working (fwd_stop \<lparr>working = True, mem = [0, 0, 0, 0], subs = [], out = []\<rparr>)
   \<and> fwd_loop 1 Little_endian \<lparr>read_sz = 4, read_hdr = True, write_hdr = False\<rparr> [eof]
        (fwd_stop \<lparr>working = True, mem = [0, 0, 0, 0], subs = [], out = []\<rparr>) 0
      = Some (0, fwd_stop \<lparr>working = True, mem = [0, 0, 0, 0], subs = [], out = []\<rparr>, [eof])
   \<and> stop_due \<lparr>working = True, mem = [0, 0, 0, 0], subs = [], out = []\<rparr> [eof, eof\<lparr>stopped := True\<rparr>]
   \<and> fwd_loop 2 Little_endian \<lparr>read_sz = 4, read_hdr = True, write_hdr = False\<rparr>
        [eof, eof\<lparr>stopped := True\<rparr>]
        \<lparr>working = True, mem = [0, 0, 0, 0], subs = [], out = []\<rparr> 0 \<noteq> None
   \<and> pump_loop Little_endian 592 [quiet, quiet\<lparr>select_r := Failed 9\<rparr>] (pump_init 592)
      = (Returned 9, [Select, Select])
   \<and> (\<exists>env\<in>set [quiet, quiet\<lparr>select_r := Failed 9\<rparr>]. failed_with env 9)"
proof -
  let ?w = "\<lparr>working = True, mem = [0, 0, 0, 0], subs = [], out = []\<rparr>"
  let ?args = "\<lparr>read_sz = 4, read_hdr = True, write_hdr = False\<rparr>"
  have off: "\<not> working (fwd_stop ?w)"
    by (simp add: fwd_stop_def)
  have due: "stop_due ?w [eof, eof\<lparr>stopped := True\<rparr>]"
    by (simp add: stop_due_def eof_def)
  have run: "pump_loop Little_endian 592 [quiet, quiet\<lparr>select_r := Failed 9\<rparr>] (pump_init 592)
      = (Returned 9, [Select, Select])"
    by (simp add: pump_iter_def quiet_def)
  from stop_ends_forwarder [where w = "fwd_stop ?w" and cs = "[eof]" and fuel = 1
      and e = Little_endian and args = ?args and ret = 0] off
  have one: "fwd_loop 1 Little_endian ?args [eof] (fwd_stop ?w) 0 = Some (0, fwd_stop ?w, [eof])"
    by blast
  from stop_ends_forwarder [where w = ?w and cs = "[eof, eof\<lparr>stopped := True\<rparr>]" and fuel = 2
      and e = Little_endian and args = ?args and ret = 0] due
  have two: "fwd_loop 2 Little_endian ?args [eof, eof\<lparr>stopped := True\<rparr>] ?w 0 \<noteq> None"
    by auto
  from stop_ends_forwarder [where e = Little_endian and mtu = 592
      and envs = "[quiet, quiet\<lparr>select_r := Failed 9\<rparr>]" and st = "pump_init 592" and r = 9
      and tr = "[Select, Select]"] run
  have three: "\<exists>env\<in>set [quiet, quiet\<lparr>select_r := Failed 9\<rparr>]. failed_with env 9"
    by blast
  from off one due two run three show ?thesis by blast
qed

text \<open>
  The pump is outside this: \<^verbatim>\<open>working\<close> is a static variable of \<^verbatim>\<open>forward.c\<close> and
  \<^verbatim>\<open>pump\<close> has no test of it, its loop being \<^verbatim>\<open>while (1)\<close>. After \<^verbatim>\<open>fwd_stop\<close> the
  pump still waits in \<^verbatim>\<open>select\<close>, forwards the datagram that arrives and goes round
  again; it has not returned 0.
\<close>

theorem pump_ignores_stop:
  "\<not> working (fwd_stop \<lparr>working = True, mem = [], subs = [], out = []\<rparr>)
   \<and> pump Little_endian 590
       [quiet\<lparr>select_r := Got (False, True), recvfrom_r := Got [0x04, 0x00, 0xCA, 0xFE, 0xBA, 0xBE],
              write_r := Got 4\<rparr>,
        quiet]
     = (Running ((pump_init 592)\<lparr>wbuf := [0x04, 0x00, 0xCA, 0xFE, 0xBA, 0xBE] @ replicate 586 0\<rparr>),
        [Select, Recvfrom 592 [0x04, 0x00, 0xCA, 0xFE, 0xBA, 0xBE],
         Write_tap 2 4 [0xCA, 0xFE, 0xBA, 0xBE], Select])"
  by (simp add: fwd_stop_def pump_def pump_init_def pump_iter_def sock_to_tap_def write_frame_def
      quiet_def hsz_def b_u16_i_def blit_def handed_def slice_def Let_def)

section \<open>End of file\<close>

lemma read_loop_eof:
  "working w \<Longrightarrow> ro < count \<Longrightarrow> read_loop (replicate n eof) w count exact ro = None"
proof (induction n arbitrary: w)
  case 0
  then show ?case by simp
next
  case (Suc n)
  have "working (submitted (Sub_read (unat ro) (uint count - uint ro)) eof w
           \<lparr>mem := blit (mem (submitted (Sub_read (unat ro) (uint count - uint ro)) eof w))
                    (unat ro) []\<rparr>)"
    using Suc.prems by (simp add: submitted_def eof_def)
  from Suc.IH [OF this Suc.prems(2)] Suc.prems show ?case
    by (simp add: eof_def Let_def)
qed

lemma read_loop_done:
  "\<not> ro < count \<Longrightarrow> read_loop cs w count exact ro = Some (uint ro, w, cs)"
  by (cases cs) simp_all

lemma fwd_loop_eof:
  "working w \<Longrightarrow> fwd_loop fuel e args (replicate n eof) w ret = None"
proof (induction fuel arbitrary: ret)
  case 0
  then show ?case by simp
next
  case (Suc fuel)
  have body: "fwd_body e args (replicate n eof) w = None
     \<or> fwd_body e args (replicate n eof) w = Some (Again 0 w (replicate n eof))"
  proof (cases "read_hdr args")
    case True
    then show ?thesis
      using Suc.prems by (simp add: fwd_body_def fwd_header_def read_fd_def read_loop_eof)
  next
    case False
    show ?thesis
    proof (cases "0 < read_sz args")
      case True
      then show ?thesis
        using Suc.prems \<open>\<not> read_hdr args\<close>
        by (simp add: fwd_body_def fwd_header_def read_fd_def read_loop_eof)
    next
      case False
      then show ?thesis
        using \<open>\<not> read_hdr args\<close>
        by (simp add: fwd_body_def fwd_header_def read_fd_def read_loop_done)
    qed
  qed
  then show ?case
    using Suc by auto
qed

text \<open>
  Claim C6, as amended. End of file is not a failure for \<^verbatim>\<open>read_fd\<close>: a read that
  completes with 0 bytes is submitted again, exact or not. While the flag stays set and
  the source stays at end of file, \<^verbatim>\<open>read_fd\<close> does not return as long as bytes are
  missing, however many completions arrive, and neither does \<^verbatim>\<open>fwd\<close>, whatever its
  framing. They leave when the flag is cleared.
\<close>

theorem eof_is_retried:
  assumes "working w"
  shows "(ro < count \<longrightarrow> read_loop (replicate n eof) w count exact ro = None)
     \<and> fwd_loop fuel e args (replicate n eof) w ret = None"
  using assms by (simp add: read_loop_eof fwd_loop_eof)

theorem eof_is_retried_witness:
  "working \<lparr>working = True, mem = [0, 0, 0, 0], subs = [], out = []\<rparr>
   \<and> read_loop (replicate 3 eof) \<lparr>working = True, mem = [0, 0, 0, 0], subs = [], out = []\<rparr>
        2 True 0 = None
   \<and> fwd_loop 3 Little_endian \<lparr>read_sz = 4, read_hdr = True, write_hdr = False\<rparr>
        (replicate 3 eof) \<lparr>working = True, mem = [0, 0, 0, 0], subs = [], out = []\<rparr> 0 = None"
  using eof_is_retried [where w = "\<lparr>working = True, mem = [0, 0, 0, 0], subs = [], out = []\<rparr>"
      and ro = 0 and count = 2 and n = 3 and exact = True and fuel = 3 and e = Little_endian
      and args = "\<lparr>read_sz = 4, read_hdr = True, write_hdr = False\<rparr>" and ret = 0]
  by simp

text \<open>
  The claim itself fails at an exact read of 2 bytes from a source at end of file: the read
  is submitted three times, and the call returns 0, not a failure, only because the third
  answer comes with a stop.
\<close>

theorem eof_read_exact_resubmits:
  "read_fd [eof, eof, eof\<lparr>stopped := True\<rparr>]
      \<lparr>working = True, mem = [0, 0, 0, 0], subs = [], out = []\<rparr> 2 True
   = Some (0, \<lparr>working = False, mem = [0, 0, 0, 0],
              subs = [Sub_read 0 2, Sub_read 0 2, Sub_read 0 2], out = []\<rparr>, [])"
  by code_simp

end
